theory Spec2Isabelle
  imports Main "HOL-Library.Sublist"
begin

section \<open>Python strings and the library calls the script relies on\<close>

text \<open>
  The script \<^verbatim>\<open>mt_meld.py\<close> works on Python 3 text strings. A text string is modelled
  as a \<^typ>\<open>string\<close>, each \<^typ>\<open>char\<close> standing for the code point of the same number
  (0 to 255), so the model covers the texts whose code points are below 256. On this
  range \<^verbatim>\<open>str.split()\<close>, \<^verbatim>\<open>str.rstrip()\<close> and \<^verbatim>\<open>str.lower()\<close> act as defined below.
\<close>

text \<open>
  The white space of \<^verbatim>\<open>str.split()\<close> and \<^verbatim>\<open>str.rstrip()\<close>: tab, line feed, vertical tab,
  form feed, carriage return, the four separators 28 to 31, space, NEL (133) and the
  no-break space (160).
\<close>

definition py_isspace :: "char \<Rightarrow> bool" where
  "py_isspace c =
     (let n = (of_char c :: nat)
      in (9 \<le> n \<and> n \<le> 13) \<or> (28 \<le> n \<and> n \<le> 32) \<or> n = 133 \<or> n = 160)"

text \<open>
  \<^verbatim>\<open>str.lower()\<close> character by character: the letters A to Z and the upper-case
  letters 192 to 222 (all but the multiplication sign 215) move up by 32.
\<close>

definition py_lower_char :: "char \<Rightarrow> char" where
  "py_lower_char c =
     (let n = (of_char c :: nat)
      in if (65 \<le> n \<and> n \<le> 90) \<or> (192 \<le> n \<and> n \<le> 222 \<and> n \<noteq> 215)
         then char_of (n + 32) else c)"

definition py_lower :: "string \<Rightarrow> string" where
  "py_lower s = map py_lower_char s"

text \<open>\<^verbatim>\<open>s.rstrip()\<close> removes the trailing white space.\<close>

definition py_rstrip :: "string \<Rightarrow> string" where
  "py_rstrip s = rev (dropWhile py_isspace (rev s))"

text \<open>
  \<^verbatim>\<open>s.split()\<close>: the maximal runs of characters that are not white space, in order.
  \<open>split_ws cur s\<close> scans \<open>s\<close> with the token under construction in \<open>cur\<close>.
\<close>

fun split_ws :: "string \<Rightarrow> string \<Rightarrow> string list" where
  "split_ws cur [] = (if cur = [] then [] else [cur])"
| "split_ws cur (c # cs) =
     (if py_isspace c
      then (if cur = [] then split_ws [] cs else cur # split_ws [] cs)
      else split_ws (cur @ [c]) cs)"

definition py_split :: "string \<Rightarrow> string list" where
  "py_split s = split_ws [] s"

text \<open>\<^verbatim>\<open>sep.join(xs)\<close>.\<close>

fun py_join :: "string \<Rightarrow> string list \<Rightarrow> string" where
  "py_join sep [] = []"
| "py_join sep [x] = x"
| "py_join sep (x # y # ys) = x @ sep @ py_join sep (y # ys)"

text \<open>
  \<^verbatim>\<open>re.sub(pat, repl, s)\<close> for a pattern without metacharacters, as both patterns of
  the script are (\<^verbatim>\<open>"@@ "\<close> and \<^verbatim>\<open>"&apos;"\<close>): one pass from the left, each occurrence found
  is replaced and the scan goes on behind it. The script never passes an empty pattern;
  the model leaves the text unchanged for it.
\<close>

function re_sub :: "string \<Rightarrow> string \<Rightarrow> string \<Rightarrow> string" where
  "re_sub pat repl [] = []"
| "re_sub pat repl (c # cs) =
     (if pat \<noteq> [] \<and> prefix pat (c # cs)
      then repl @ re_sub pat repl (drop (length pat) (c # cs))
      else c # re_sub pat repl cs)"
  by pat_completeness auto
termination
  by (relation "measure (\<lambda>(pat, repl, s). length s)") (auto simp: Suc_diff_le)

text \<open>The decimal numeral that \<^verbatim>\<open>"%i"\<close> prints for a number that is not negative.\<close>

fun str_nat :: "nat \<Rightarrow> string" where
  "str_nat n =
     (if n < 10 then [char_of (48 + n)]
      else str_nat (n div 10) @ [char_of (48 + n mod 10)])"

declare str_nat.simps [simp del]

definition nl :: string where
  "nl = [CHR 0x0A]"

definition apostrophe :: string where
  "apostrophe = [CHR 0x27]"

section \<open>Errors, files and the truecase model\<close>

datatype py_error =
    TypeError
  | FileNotFoundError
  | IndexError
  | UnboundLocalError
  | SystemExit nat

text \<open>
  A text file is the list of its lines as iteration and \<^verbatim>\<open>readline()\<close> deliver them,
  each with its line terminator. The file system maps the paths of the regular files
  to their lines. \<^verbatim>\<open>open(None)\<close> raises \<^verbatim>\<open>TypeError\<close>, \<^verbatim>\<open>open\<close> of a path that is no
  file raises \<^verbatim>\<open>FileNotFoundError\<close> (an \<^verbatim>\<open>IOError\<close>).
\<close>

type_synonym text_file = "string list"
type_synonym filesystem = "string \<rightharpoonup> text_file"
type_synonym truecase_dict = "string \<rightharpoonup> string"

definition py_open :: "filesystem \<Rightarrow> string option \<Rightarrow> py_error + text_file" where
  "py_open fs path =
     (case path of
        None \<Rightarrow> Inl TypeError
      | Some p \<Rightarrow> (case fs p of None \<Rightarrow> Inl FileNotFoundError | Some f \<Rightarrow> Inr f))"

text \<open>
  The loop of \<^verbatim>\<open>parse_truecase_model\<close> over the lines of the model file;
  \<^verbatim>\<open>split_line[0]\<close> raises \<^verbatim>\<open>IndexError\<close> on a line without a token.
\<close>

fun parse_truecase_lines :: "truecase_dict \<Rightarrow> text_file \<Rightarrow> py_error + truecase_dict" where
  "parse_truecase_lines truecase_dict [] = Inr truecase_dict"
| "parse_truecase_lines truecase_dict (line # tc_file) =
     (let split_line = py_split line
      in case split_line of
           [] \<Rightarrow> Inl IndexError
         | tok # _ \<Rightarrow> parse_truecase_lines (truecase_dict(py_lower tok \<mapsto> tok)) tc_file)"

definition parse_truecase_model :: "filesystem \<Rightarrow> string option \<Rightarrow> py_error + truecase_dict" where
  "parse_truecase_model fs truecase_model_file =
     (case py_open fs truecase_model_file of
        Inl e \<Rightarrow> Inl e
      | Inr tc_file \<Rightarrow> parse_truecase_lines Map.empty tc_file)"

text \<open>
  \<^verbatim>\<open>truecase_line\<close>: the loop runs over \<^verbatim>\<open>range(len(tokens))\<close>, computed once, and
  overwrites the tokens in place.
\<close>

definition truecase_step :: "truecase_dict \<Rightarrow> nat \<Rightarrow> string list \<Rightarrow> string list" where
  "truecase_step truecase_dict i tokens =
     (let word = tokens ! i
      in case truecase_dict (py_lower word) of
           Some cased \<Rightarrow> tokens[i := cased]
         | None \<Rightarrow> tokens)"

definition truecase_line :: "string \<Rightarrow> truecase_dict \<Rightarrow> string" where
  "truecase_line line truecase_dict =
     (let tokens = py_split line;
          tokens = fold (truecase_step truecase_dict) [0..<length tokens] tokens
      in py_join '' '' tokens)"

section \<open>Printing a hypothesis\<close>

text \<open>
  Everything the script prints goes to standard output; a printing function returns
  the text it prints.
\<close>

definition print_hyp :: "nat \<Rightarrow> string \<Rightarrow> string \<Rightarrow> string" where
  "print_hyp hyp_num ref_line hyp_line =
     (''MT'' @ str_nat hyp_num @ '': '')
     @ (if ref_line = hyp_line then '':-) '' else ''    '')
     @ (hyp_line @ nl)"

section \<open>The command line\<close>

text \<open>
  The values \<^verbatim>\<open>argparse\<close> stores, with the defaults the script declares. The command
  line is taken as the list of the options supplied, each with its argument; an option
  given again overrides the earlier one, and an option that is not given keeps its default.
\<close>

record cmd_args =
  src :: string
  ref :: "string option"
  hyps :: "string list"
  del_bpe :: bool
  lc :: bool
  truecase :: "string option"
  detok :: string
  head :: int
  google :: "string option"

definition maxsize :: int where
  "maxsize = 2 ^ 63 - 1"

definition default_args :: cmd_args where
  "default_args =
     \<lparr>src = [], ref = None, hyps = [], del_bpe = False, lc = False,
      truecase = None, detok = ''en'', head = maxsize, google = None\<rparr>"

datatype cli_option =
    OptSrc string
  | OptRef string
  | OptHyps "string list"
  | OptDelBpe
  | OptLc
  | OptTruecase string
  | OptDetok string
  | OptHead int
  | OptGoogle string

fun store_option :: "cmd_args \<Rightarrow> cli_option \<Rightarrow> cmd_args" where
  "store_option a (OptSrc p) = a\<lparr>src := p\<rparr>"
| "store_option a (OptRef p) = a\<lparr>ref := Some p\<rparr>"
| "store_option a (OptHyps ps) = a\<lparr>hyps := ps\<rparr>"
| "store_option a OptDelBpe = a\<lparr>del_bpe := True\<rparr>"
| "store_option a OptLc = a\<lparr>lc := True\<rparr>"
| "store_option a (OptTruecase p) = a\<lparr>truecase := Some p\<rparr>"
| "store_option a (OptDetok l) = a\<lparr>detok := l\<rparr>"
| "store_option a (OptHead n) = a\<lparr>head := n\<rparr>"
| "store_option a (OptGoogle l) = a\<lparr>google := Some l\<rparr>"

definition parse_args :: "cli_option list \<Rightarrow> cmd_args" where
  "parse_args argv = foldl store_option default_args argv"

text \<open>Python's truth value of a string and of a string that may be \<^verbatim>\<open>None\<close>.\<close>

definition truthy :: "string \<Rightarrow> bool" where
  "truthy s = (s \<noteq> [])"

definition truthy_opt :: "string option \<Rightarrow> bool" where
  "truthy_opt v = (case v of None \<Rightarrow> False | Some s \<Rightarrow> truthy s)"

section \<open>Normalising one line\<close>

text \<open>
  \<^verbatim>\<open>process_line\<close>. The compiled pattern \<open>re_bpe\<close> is given by its text; the detokenizer
  object is given by its method \<^verbatim>\<open>detokenize(tokens, return_str=True)\<close>, a function
  from the tokens to the text.
\<close>

type_synonym detokenizer = "string list \<Rightarrow> string"

definition process_line ::
  "cmd_args \<Rightarrow> string \<Rightarrow> string \<Rightarrow> detokenizer \<Rightarrow> truecase_dict \<Rightarrow> string" where
  "process_line args line0 re_bpe detokenize truecase_dict =
     (let line = py_rstrip line0;
          line = (if lc args then py_lower line
                  else if truthy_opt (truecase args) then truecase_line line truecase_dict
                  else line);
          line = (if del_bpe args then re_sub re_bpe [] line else line);
          line = (if truthy (detok args) then detokenize (py_split line) else line);
          line = re_sub ''&apos;'' apostrophe line
      in line)"

section \<open>Traversing the files\<close>

text \<open>
  What the script takes from outside: the file system, the module \<^verbatim>\<open>mtranslate\<close>
  (\<open>None\<close> when it cannot be imported, else its function \<^verbatim>\<open>translate(text, lang)\<close>), and
  what importing and building \<^verbatim>\<open>MosesDetokenizer(lang=...)\<close> gives.
\<close>

datatype nltk_result =
    NltkImportError
  | NltkLookupError
  | MosesDetokenizer detokenizer

record environment =
  files :: filesystem
  mtranslate :: "(string \<Rightarrow> string \<Rightarrow> string) option"
  moses :: "string \<Rightarrow> nltk_result"

text \<open>\<^verbatim>\<open>f.readline()\<close> gives the next line, and the empty string at the end of the file.\<close>

definition readline :: "text_file \<Rightarrow> string \<times> text_file" where
  "readline f = (case f of [] \<Rightarrow> ([], []) | l # ls \<Rightarrow> (l, ls))"

text \<open>
  The inner loop \<^verbatim>\<open>for hyp in hyps\<close>: it returns what it prints, the hypothesis files
  after the reads, and the next hypothesis number.
\<close>

fun hyps_loop ::
  "cmd_args \<Rightarrow> string \<Rightarrow> detokenizer \<Rightarrow> truecase_dict \<Rightarrow> string \<Rightarrow> nat \<Rightarrow> text_file list
   \<Rightarrow> string \<times> text_file list \<times> nat" where
  "hyps_loop args re_bpe dt td ref_line hyp_num [] = ([], [], hyp_num)"
| "hyps_loop args re_bpe dt td ref_line hyp_num (hyp # hs) =
     (let (hyp_line, hyp') = readline hyp;
          hyp_line = process_line args hyp_line re_bpe dt td;
          out = print_hyp hyp_num ref_line hyp_line;
          (outs, hs', n) = hyps_loop args re_bpe dt td ref_line (hyp_num + 1) hs
      in (out @ outs, hyp' # hs', n))"

text \<open>
  The part of the loop body that reads and prints the reference: the reference line
  used for the comparisons, the reference file after the read, and the text printed.
\<close>

definition read_ref ::
  "cmd_args \<Rightarrow> string \<Rightarrow> detokenizer \<Rightarrow> truecase_dict \<Rightarrow> text_file option
   \<Rightarrow> string \<times> text_file option \<times> string" where
  "read_ref args re_bpe dt td ref_f =
     (case ref_f of
        None \<Rightarrow> ([], None, [])
      | Some r \<Rightarrow>
          (let (ref_line, r') = readline r;
               ref_line = process_line args ref_line re_bpe dt td
           in (ref_line, Some r', ''Ref:    '' @ '' '' @ ref_line @ nl)))"

text \<open>
  The last part of the loop body: the translation of the source line as one more
  hypothesis, normalised with an empty truecase model.
\<close>

definition google_hyp ::
  "cmd_args \<Rightarrow> string \<Rightarrow> detokenizer \<Rightarrow> (string \<Rightarrow> string \<Rightarrow> string) option
   \<Rightarrow> string \<Rightarrow> string \<Rightarrow> nat \<Rightarrow> string \<times> py_error option" where
  "google_hyp args re_bpe dt mt src_line ref_line hyp_num =
     (case google args of
        None \<Rightarrow> ([], None)
      | Some lang \<Rightarrow>
          (if truthy lang
           then (case mt of
                   None \<Rightarrow> ([], Some UnboundLocalError)
                 | Some translate \<Rightarrow>
                     (let google_line = translate src_line lang;
                          google_line = process_line args google_line re_bpe dt Map.empty
                      in (print_hyp hyp_num ref_line google_line, None)))
           else ([], None)))"

text \<open>
  The loop \<^verbatim>\<open>for src_line in src\<close>. The local variable \<open>detok\<close> may be unbound (\<open>None\<close>):
  then the first call of \<^verbatim>\<open>process_line\<close> raises \<^verbatim>\<open>UnboundLocalError\<close>. The result is the
  text printed and the exception that ended the loop, if any.
\<close>

fun lines_loop ::
  "cmd_args \<Rightarrow> string \<Rightarrow> detokenizer option \<Rightarrow> (string \<Rightarrow> string \<Rightarrow> string) option
   \<Rightarrow> truecase_dict \<Rightarrow> int \<Rightarrow> text_file \<Rightarrow> text_file option \<Rightarrow> text_file list
   \<Rightarrow> string \<times> py_error option" where
  "lines_loop args re_bpe detok_v mt td line_num [] ref_f hyp_fs = ([], None)"
| "lines_loop args re_bpe detok_v mt td line_num (src_line # src_f) ref_f hyp_fs =
     (if line_num + 1 > head args then ([], None)
      else
        (case detok_v of
           None \<Rightarrow> ([], Some UnboundLocalError)
         | Some dt \<Rightarrow>
             (let src_line = process_line args src_line re_bpe dt td;
                  out_src = ''Src:     '' @ src_line @ nl;
                  (ref_line, ref_f', out_ref) = read_ref args re_bpe dt td ref_f;
                  (out_hyps, hyp_fs', hyp_num) = hyps_loop args re_bpe dt td ref_line 1 hyp_fs;
                  (out_google, err) = google_hyp args re_bpe dt mt src_line ref_line hyp_num;
                  out = out_src @ out_ref @ out_hyps @ out_google
              in (case err of
                    Some e \<Rightarrow> (out, Some e)
                  | None \<Rightarrow>
                      (let (out_rest, err_rest) =
                             lines_loop args re_bpe detok_v mt td (line_num + 1) src_f ref_f' hyp_fs'
                       in (out @ nl @ out_rest, err_rest))))))"

definition process_lines ::
  "environment \<Rightarrow> cmd_args \<Rightarrow> text_file \<Rightarrow> text_file option \<Rightarrow> text_file list
   \<Rightarrow> truecase_dict \<Rightarrow> string \<times> py_error option" where
  "process_lines env args src_f ref_f hyp_fs truecase_dict =
     (let re_bpe = ''@@ ''
      in if truthy_opt (google args) \<and> mtranslate env = None
         then (''Error: Install package '' @ apostrophe @ ''mtranslate'' @ apostrophe
                 @ '': pip install --user -U mtranslate'' @ nl,
               Some (SystemExit 2))
         else
           (let mt = (if truthy_opt (google args) then mtranslate env else None)
            in if truthy (detok args)
               then (case moses env (detok args) of
                       NltkImportError \<Rightarrow>
                         (''Error: Install package '' @ apostrophe @ ''nltk'' @ apostrophe
                            @ '': pip install --user -U nltk'' @ nl,
                          Some (SystemExit 3))
                     | NltkLookupError \<Rightarrow>
                         (''Error: Install NLTK data package '' @ apostrophe @ ''perluniprops''
                            @ apostrophe @ '': '' @ replicate 19 CHR '' ''
                            @ ''import nltk; nltk.download('' @ apostrophe @ ''perluniprops''
                            @ apostrophe @ '')'' @ nl,
                          Some (SystemExit 4))
                     | MosesDetokenizer dt \<Rightarrow>
                         lines_loop args re_bpe (Some dt) mt truecase_dict 0 src_f ref_f hyp_fs)
               else lines_loop args re_bpe None mt truecase_dict 0 src_f ref_f hyp_fs))"

section \<open>The main program\<close>

text \<open>
  The loop that opens the hypothesis files: a file that cannot be opened is reported
  and left out.
\<close>

fun open_hyps :: "filesystem \<Rightarrow> string list \<Rightarrow> string \<times> text_file list" where
  "open_hyps fs [] = ([], [])"
| "open_hyps fs (hyp_file # ps) =
     (let (out, fs_rest) = open_hyps fs ps
      in case py_open fs (Some hyp_file) of
           Inl e \<Rightarrow> (''Error: Could not open hyp_file'' @ nl @ out, fs_rest)
         | Inr f \<Rightarrow> (out, f # fs_rest))"

definition main :: "environment \<Rightarrow> cli_option list \<Rightarrow> string \<times> py_error option" where
  "main env argv =
     (let args = parse_args argv
      in if files env (src args) = None
         then (''Error: You need to supply a source file.  Add --src <FILE>'' @ nl,
               Some (SystemExit 1))
         else
           (case parse_truecase_model (files env) (truecase args) of
              Inl e \<Rightarrow> ([], Some e)
            | Inr truecase_dict \<Rightarrow>
                (case py_open (files env) (Some (src args)) of
                   Inl e \<Rightarrow> ([], Some e)
                 | Inr src_f \<Rightarrow>
                     (case (case ref args of
                              None \<Rightarrow> Inr None
                            | Some p \<Rightarrow> map_sum id Some (py_open (files env) (Some p))) of
                        Inl e \<Rightarrow> ([], Some e)
                      | Inr ref_f \<Rightarrow>
                          (let (out_open, hyp_fs) = open_hyps (files env) (hyps args);
                               (out, err) = process_lines env args src_f ref_f hyp_fs truecase_dict
                           in (out_open @ out, err))))))"

section \<open>Notions of the specification\<close>



text \<open>
  Truecasing as the specification words it: a token whose lower-cased form is a key
  is replaced by the mapped value, any other token stays.
\<close>

definition truecase_token :: "truecase_dict \<Rightarrow> string \<Rightarrow> string" where
  "truecase_token d w = (case d (py_lower w) of Some cased \<Rightarrow> cased | None \<Rightarrow> w)"

text \<open>
  The four characters that follow \<^verbatim>\<open>MTk: \<close> in a printed hypothesis line: the place of
  the match marker.
\<close>

definition marker_of :: "nat \<Rightarrow> string \<Rightarrow> string" where
  "marker_of hyp_num printed = take 4 (drop (length (''MT'' @ str_nat hyp_num @ '': '')) printed)"

text \<open>
  Line \<open>i\<close> (from 0) of a file as the \<open>i\<close>-th read of the run sees it: the empty string
  once the file is exhausted.
\<close>

definition line_at :: "text_file \<Rightarrow> nat \<Rightarrow> string" where
  "line_at f i = (if i < length f then f ! i else [])"

text \<open>
  The text of one group, from the raw lines read for it: the source line, the reference
  line if there is a reference, one line for each hypothesis numbered from \<open>n\<close>, the
  translated hypothesis if requested, and an empty line.
\<close>

definition hyp_lines_text ::
  "cmd_args \<Rightarrow> string \<Rightarrow> detokenizer \<Rightarrow> truecase_dict \<Rightarrow> string \<Rightarrow> nat \<Rightarrow> string list \<Rightarrow> string" where
  "hyp_lines_text args re_bpe dt td ref_line n raws =
     concat (map (\<lambda>(k, raw). print_hyp k ref_line (process_line args raw re_bpe dt td))
                 (enumerate n raws))"

definition group_text ::
  "cmd_args \<Rightarrow> string \<Rightarrow> detokenizer \<Rightarrow> (string \<Rightarrow> string \<Rightarrow> string) option \<Rightarrow> truecase_dict
   \<Rightarrow> string \<Rightarrow> string option \<Rightarrow> string list \<Rightarrow> string" where
  "group_text args re_bpe dt mt td src_raw ref_raw hyp_raws =
     (let src_line = process_line args src_raw re_bpe dt td;
          ref_line = (case ref_raw of None \<Rightarrow> [] | Some r \<Rightarrow> process_line args r re_bpe dt td)
      in ''Src:     '' @ src_line @ nl
         @ (case ref_raw of None \<Rightarrow> [] | Some r \<Rightarrow> ''Ref:     '' @ ref_line @ nl)
         @ hyp_lines_text args re_bpe dt td ref_line 1 hyp_raws
         @ fst (google_hyp args re_bpe dt mt src_line ref_line (Suc (length hyp_raws)))
         @ nl)"

text \<open>
  An environment for running the model on examples: no module \<^verbatim>\<open>mtranslate\<close>, a
  detokenizer that joins the tokens with single spaces, and one source file.
\<close>

definition example_files :: filesystem where
  "example_files = [''s'' \<mapsto> [''a b'' @ nl]]"

definition example_env :: environment where
  "example_env = \<lparr>files = example_files, mtranslate = None,
                   moses = (\<lambda>lang. MosesDetokenizer (py_join '' ''))\<rparr>"

text \<open>A file filled up to \<open>n\<close> lines with empty lines.\<close>

definition pad_file :: "nat \<Rightarrow> text_file \<Rightarrow> text_file" where
  "pad_file n f = f @ replicate (n - length f) []"

section \<open>Splitting at white space\<close>

lemma split_ws_Nil_iff:
  "split_ws cur s = [] \<longleftrightarrow> cur = [] \<and> (\<forall>c\<in>set s. py_isspace c)"
  by (induction s arbitrary: cur) auto

lemma py_split_Nil_iff: "py_split s = [] \<longleftrightarrow> (\<forall>c\<in>set s. py_isspace c)"
  by (simp add: py_split_def split_ws_Nil_iff)

text \<open>Facts that let the simplifier run the string functions on literal texts.\<close>

lemmas string_eval =
  py_split_def py_isspace_def py_lower_def py_lower_char_def py_rstrip_def
  nl_def apostrophe_def char_of_def bit_0

section \<open>Loading the truecase model\<close>

lemma parse_truecase_lines_blank:
  "l \<in> set ls \<Longrightarrow> py_split l = [] \<Longrightarrow> parse_truecase_lines d ls = Inl IndexError"
  by (induction ls arbitrary: d) (auto split: list.splits)




text \<open>
  Claim C10. If some line of the model file consists of white space only (an empty
  line included), \<^verbatim>\<open>parse_truecase_model\<close> raises \<^verbatim>\<open>IndexError\<close>: the line is not skipped.
\<close>

theorem load_blank_line_index_error:
  assumes "fs p = Some ls" and "l \<in> set ls" and "\<forall>c\<in>set l. py_isspace c"
  shows "parse_truecase_model fs (Some p) = Inl IndexError"
  using assms
  by (simp add: parse_truecase_model_def py_open_def parse_truecase_lines_blank py_split_Nil_iff)

theorem load_blank_line_index_error_witness:
  "[''m'' \<mapsto> [''NATO foo'' @ nl, '' '' @ nl]] ''m'' = Some [''NATO foo'' @ nl, '' '' @ nl] \<and>
   '' '' @ nl \<in> set [''NATO foo'' @ nl, '' '' @ nl] \<and>
   list_all py_isspace ('' '' @ nl) \<and>
   parse_truecase_model [''m'' \<mapsto> [''NATO foo'' @ nl, '' '' @ nl]] (Some ''m'') = Inl IndexError"
  using load_blank_line_index_error [of "[''m'' \<mapsto> [''NATO foo'' @ nl, '' '' @ nl]]" "''m''"
               "[''NATO foo'' @ nl, '' '' @ nl]" "'' '' @ nl"]
  by (simp add: string_eval)

section \<open>Truecasing a line\<close>

lemma truecase_step_at:
  "truecase_step d (length pre) (pre @ w # post) = pre @ truecase_token d w # post"
  by (simp add: truecase_step_def truecase_token_def split: option.splits)

lemma truecase_fold_prefix:
  "n \<le> length ts \<Longrightarrow>
   fold (truecase_step d) [0..<n] ts = map (truecase_token d) (take n ts) @ drop n ts"
proof (induction n)
  case 0
  then show ?case by simp
next
  case (Suc n)
  then have n: "n < length ts" by simp
  have "fold (truecase_step d) [0..<Suc n] ts
          = truecase_step d n (map (truecase_token d) (take n ts) @ drop n ts)"
    using Suc.IH n by simp
  also have "drop n ts = ts ! n # drop (Suc n) ts"
    using n by (simp add: Cons_nth_drop_Suc)
  also have "truecase_step d n (map (truecase_token d) (take n ts) @ ts ! n # drop (Suc n) ts)
          = map (truecase_token d) (take n ts) @ truecase_token d (ts ! n) # drop (Suc n) ts"
    using n truecase_step_at [of d "map (truecase_token d) (take n ts)"] by simp
  also have "\<dots> = map (truecase_token d) (take (Suc n) ts) @ drop (Suc n) ts"
    using n by (simp add: take_Suc_conv_app_nth)
  finally show ?case .
qed

lemma truecase_fold_map:
  "fold (truecase_step d) [0..<length ts] ts = map (truecase_token d) ts"
  by (simp add: truecase_fold_prefix)

lemma split_ws_tokens:
  "\<forall>c\<in>set cur. \<not> py_isspace c \<Longrightarrow>
   \<forall>t\<in>set (split_ws cur s). t \<noteq> [] \<and> (\<forall>c\<in>set t. \<not> py_isspace c)"
proof (induction s arbitrary: cur)
  case Nil
  then show ?case by simp
next
  case (Cons a s)
  have e: "\<forall>t\<in>set (split_ws [] s). t \<noteq> [] \<and> (\<forall>c\<in>set t. \<not> py_isspace c)"
    by (rule Cons.IH) simp
  show ?case
  proof (cases "py_isspace a")
    case True
    with e Cons.prems show ?thesis by simp
  next
    case False
    with Cons.prems have "\<forall>c\<in>set (cur @ [a]). \<not> py_isspace c" by simp
    from Cons.IH [OF this] False show ?thesis by simp
  qed
qed

lemma split_ws_concat:
  "concat (split_ws cur s) = cur @ filter (\<lambda>c. \<not> py_isspace c) s"
  by (induction s arbitrary: cur) auto

text \<open>
  Claim C4. \<^verbatim>\<open>truecase_line\<close> splits the line at white space, replaces each token whose
  lower-cased form is a key of the mapping by the mapped value, leaves the other tokens
  as they are, and joins the tokens with single spaces. The tokens are not empty, hold
  no white space, and together are the characters of the line that are not white space.
\<close>

theorem truecase_line_substitutes_tokens:
  "truecase_line line d = py_join '' '' (map (truecase_token d) (py_split line)) \<and>
   (\<forall>t\<in>set (py_split line). t \<noteq> [] \<and> (\<forall>c\<in>set t. \<not> py_isspace c)) \<and>
   concat (py_split line) = filter (\<lambda>c. \<not> py_isspace c) line"
  using split_ws_tokens [of "[]" line]
  by (simp add: truecase_line_def truecase_fold_map py_split_def split_ws_concat)

theorem truecase_line_substitutes_tokens_witness:
  "py_split ''the  nato   alliance'' = [''the'', ''nato'', ''alliance''] \<and>
   truecase_line ''the  nato   alliance'' [''nato'' \<mapsto> ''NATO''] = ''the NATO alliance'' \<and>
   truecase_line ''the NATO alliance'' [''nato'' \<mapsto> ''NATO''] = ''the NATO alliance''"
  using truecase_line_substitutes_tokens [of "''the  nato   alliance''" "[''nato'' \<mapsto> ''NATO'']"]
    truecase_line_substitutes_tokens [of "''the NATO alliance''" "[''nato'' \<mapsto> ''NATO'']"]
  by (simp add: truecase_token_def string_eval)

section \<open>Lower case before truecase\<close>

text \<open>
  Claim C5. When the lowercase option and the truecase option are both set,
  \<^verbatim>\<open>process_line\<close> lower-cases the line and the truecase step does not run: the result
  is that of the chain with lower-casing alone, and it is the same for every truecase
  model and with the truecase option taken away.
\<close>

theorem lowercase_precedes_truecase:
  assumes "lc args" and "truecase args = Some p"
  shows "process_line args line re_bpe dt td =
           re_sub ''&apos;'' apostrophe
             (let l = py_lower (py_rstrip line);
                  l = (if del_bpe args then re_sub re_bpe [] l else l)
              in if truthy (detok args) then dt (py_split l) else l)
         \<and> process_line args line re_bpe dt td
             = process_line (args\<lparr>truecase := None\<rparr>) line re_bpe dt td'"
  using assms by (simp add: process_line_def Let_def)

theorem lowercase_precedes_truecase_witness:
  "lc (parse_args [OptLc, OptTruecase ''m'']) \<and>
   truecase (parse_args [OptLc, OptTruecase ''m'']) = Some ''m'' \<and>
   process_line (parse_args [OptLc, OptTruecase ''m'']) (''The Nato'' @ nl) ''@@ ''
     (py_join '' '') [''nato'' \<mapsto> ''NATO''] = ''the nato''"
  using lowercase_precedes_truecase [of "parse_args [OptLc, OptTruecase ''m'']" "''m''"
      "''The Nato'' @ nl" "''@@ ''" "py_join '' ''" "[''nato'' \<mapsto> ''NATO'']" Map.empty]
  by (simp add: parse_args_def default_args_def truthy_def string_eval)

section \<open>The match marker\<close>

lemma str_nat_digit: "n < 10 \<Longrightarrow> str_nat n = [char_of (48 + n)]"
  by (subst str_nat.simps) simp

lemma str_nat_1: "str_nat 1 = ''1''" "str_nat (Suc 0) = ''1''"
  by (simp_all add: str_nat_digit string_eval)

lemma marker_of_print_hyp:
  "marker_of n (print_hyp n r h) = (if r = h then '':-) '' else ''    '')"
  unfolding marker_of_def print_hyp_def by (simp del: append_assoc)

lemma hyps_loop_out:
  "fst (hyps_loop args re_bpe dt td ref_line n hs) =
     concat (map (\<lambda>(k, h). print_hyp k ref_line
                              (process_line args (fst (readline h)) re_bpe dt td))
                 (enumerate n hs))"
  by (induction hs arbitrary: n) (simp_all add: split_def Let_def)

text \<open>
  Claim C6. In a group the reference line is the normalised line read from the
  reference, each hypothesis is printed by \<^verbatim>\<open>print_hyp\<close> with its normalised line, and the
  printed line carries the marker \<^verbatim>\<open>:-)\<close> if and only if the two normalised lines are
  equal, and four spaces otherwise.
\<close>

theorem match_marker_iff_equal:
  "fst (read_ref args re_bpe dt td (Some r)) = process_line args (fst (readline r)) re_bpe dt td \<and>
   fst (hyps_loop args re_bpe dt td ref_line n hs) =
     concat (map (\<lambda>(k, h). print_hyp k ref_line
                              (process_line args (fst (readline h)) re_bpe dt td))
                 (enumerate n hs)) \<and>
   print_hyp k ref_line hyp_line =
     ''MT'' @ str_nat k @ '': '' @ (if ref_line = hyp_line then '':-) '' else ''    '')
       @ hyp_line @ nl \<and>
   (marker_of k (print_hyp k ref_line hyp_line) = '':-) '' \<longleftrightarrow> ref_line = hyp_line) \<and>
   (marker_of k (print_hyp k ref_line hyp_line) = ''    '' \<longleftrightarrow> ref_line \<noteq> hyp_line)"
  by (simp add: hyps_loop_out marker_of_print_hyp read_ref_def split_def Let_def)
     (simp add: print_hyp_def)

theorem match_marker_iff_equal_witness:
  "print_hyp 1 ''the cat sat'' ''the cat sat'' = ''MT1: :-) the cat sat'' @ nl \<and>
   print_hyp 1 ''the cat sat'' ''the cat ran'' = ''MT1:     the cat ran'' @ nl \<and>
   marker_of 1 (print_hyp 1 ''the cat sat'' ''the cat sat'') = '':-) '' \<and>
   marker_of 1 (print_hyp 1 ''the cat sat'' ''the cat ran'') = ''    ''"
  using match_marker_iff_equal [where k = 1 and ref_line = "''the cat sat''"
      and hyp_line = "''the cat sat''" and args = default_args and re_bpe = "[]"
      and dt = concat and td = Map.empty and r = "[]" and n = 1 and hs = "[]"]
    match_marker_iff_equal [where k = 1 and ref_line = "''the cat sat''"
      and hyp_line = "''the cat ran''" and args = default_args and re_bpe = "[]"
      and dt = concat and td = Map.empty and r = "[]" and n = 1 and hs = "[]"]
  by (simp add: print_hyp_def str_nat_1 nl_def)

section \<open>The groups printed by a run\<close>

lemma readline_line_at: "readline f = (line_at f 0, drop 1 f)"
  by (cases f) (simp_all add: readline_def line_at_def)

lemma line_at_drop: "line_at (drop (Suc 0) f) i = line_at f (Suc i)"
  by (cases f) (simp_all add: line_at_def)

lemma hyps_loop_closed:
  "hyps_loop args re_bpe dt td ref_line n hs =
     (hyp_lines_text args re_bpe dt td ref_line n (map (\<lambda>h. line_at h 0) hs),
      map (drop 1) hs, n + length hs)"
proof (induction hs arbitrary: n)
  case Nil
  then show ?case by (simp add: hyp_lines_text_def)
next
  case (Cons h hs)
  show ?case
    by (simp add: Cons.IH readline_line_at hyp_lines_text_def)
qed

lemma read_ref_closed:
  "read_ref args re_bpe dt td ref_f =
     ((case ref_f of None \<Rightarrow> [] | Some r \<Rightarrow> process_line args (line_at r 0) re_bpe dt td),
      map_option (drop 1) ref_f,
      (case ref_f of None \<Rightarrow> []
       | Some r \<Rightarrow> ''Ref:     '' @ process_line args (line_at r 0) re_bpe dt td @ nl))"
  by (cases ref_f) (simp_all add: read_ref_def readline_line_at Let_def)

lemma google_hyp_no_error:
  "truthy_opt (google args) \<longrightarrow> mt \<noteq> None \<Longrightarrow>
   snd (google_hyp args re_bpe dt mt src_line ref_line n) = None"
  by (auto simp: google_hyp_def truthy_opt_def split: option.splits)

lemma lines_loop_step:
  assumes "truthy_opt (google args) \<longrightarrow> mt \<noteq> None" and "line_num + 1 \<le> head args"
  shows "lines_loop args re_bpe (Some dt) mt td line_num (src_line # src_f) ref_f hyp_fs =
           (group_text args re_bpe dt mt td src_line
              (map_option (\<lambda>r. line_at r 0) ref_f) (map (\<lambda>h. line_at h 0) hyp_fs)
            @ fst (lines_loop args re_bpe (Some dt) mt td (line_num + 1) src_f
                     (map_option (drop 1) ref_f) (map (drop 1) hyp_fs)),
            snd (lines_loop args re_bpe (Some dt) mt td (line_num + 1) src_f
                     (map_option (drop 1) ref_f) (map (drop 1) hyp_fs)))"
proof -
  obtain g where g: "google_hyp args re_bpe dt mt (process_line args src_line re_bpe dt td)
      (case ref_f of None \<Rightarrow> [] | Some r \<Rightarrow> process_line args (line_at r 0) re_bpe dt td)
      (Suc (length hyp_fs)) = (g, None)"
    using google_hyp_no_error [OF assms(1)] by (metis prod.collapse)
  obtain out err where rest:
    "lines_loop args re_bpe (Some dt) mt td (line_num + 1) src_f
       (map_option (drop 1) ref_f) (map (drop 1) hyp_fs) = (out, err)"
    by fastforce
  show ?thesis
    using assms(2) g rest
    by (cases ref_f)
       (simp_all add: read_ref_closed hyps_loop_closed group_text_def Let_def)
qed

lemma lines_loop_closed:
  assumes "truthy_opt (google args) \<longrightarrow> mt \<noteq> None"
  shows "lines_loop args re_bpe (Some dt) mt td line_num src_f ref_f hyp_fs =
           (concat (map (\<lambda>i. group_text args re_bpe dt mt td (src_f ! i)
                                (map_option (\<lambda>r. line_at r i) ref_f)
                                (map (\<lambda>h. line_at h i) hyp_fs))
                        [0..<min (length src_f) (nat (head args - line_num))]),
            None)"
proof (induction src_f arbitrary: line_num ref_f hyp_fs)
  case Nil
  then show ?case by simp
next
  case (Cons src_line src_f)
  let ?G = "\<lambda>i. group_text args re_bpe dt mt td ((src_line # src_f) ! i)
                    (map_option (\<lambda>r. line_at r i) ref_f) (map (\<lambda>h. line_at h i) hyp_fs)"
  show ?case
  proof (cases "line_num + 1 \<le> head args")
    case False
    then have "nat (head args - line_num) = 0" by simp
    with False show ?thesis by simp
  next
    case True
    let ?m = "min (length src_f) (nat (head args - (line_num + 1)))"
    have m: "min (length (src_line # src_f)) (nat (head args - line_num)) = Suc ?m"
      using True by (simp add: min_def) linarith
    have shift: "map ?G [0..<Suc ?m] = ?G 0 # map (\<lambda>i. ?G (Suc i)) [0..<?m]"
      by (simp only: upt_conv_Cons [of 0 "Suc ?m"] map_Suc_upt [symmetric] list.map map_map o_def)
    have rest: "lines_loop args re_bpe (Some dt) mt td (line_num + 1) src_f
                  (map_option (drop 1) ref_f) (map (drop 1) hyp_fs)
                = (concat (map (\<lambda>i. ?G (Suc i)) [0..<?m]), None)"
      by (simp add: Cons.IH line_at_drop option.map_comp o_def)
    show ?thesis
      unfolding lines_loop_step [OF assms True] rest m shift by simp
  qed
qed

lemma process_lines_closed:
  assumes "truthy (detok args)" and "moses env (detok args) = MosesDetokenizer dt"
    and "truthy_opt (google args) \<longrightarrow> mtranslate env \<noteq> None"
  shows "process_lines env args src_f ref_f hyp_fs td =
           (concat (map (\<lambda>i. group_text args ''@@ '' dt
                                (if truthy_opt (google args) then mtranslate env else None) td
                                (src_f ! i)
                                (map_option (\<lambda>r. line_at r i) ref_f)
                                (map (\<lambda>h. line_at h i) hyp_fs))
                        [0..<min (length src_f) (nat (head args))]),
            None)"
proof (cases "truthy_opt (google args)")
  case True
  with assms(3) have "mtranslate env \<noteq> None" by simp
  with True assms(1,2) show ?thesis
    by (simp add: process_lines_def lines_loop_closed del: not_None_eq)
next
  case False
  with assms(1,2) show ?thesis
    by (simp add: process_lines_def lines_loop_closed)
qed

lemma line_at_pad_file: "line_at (pad_file n f) i = line_at f i"
  by (auto simp: line_at_def pad_file_def nth_append)

lemma lines_loop_unbound:
  "lines_loop args re_bpe None mt td line_num src_f ref_f hyp_fs =
     (if src_f = [] \<or> line_num + 1 > head args then ([], None)
      else ([], Some UnboundLocalError))"
  by (cases src_f) simp_all

lemma process_lines_after_google:
  assumes "\<not> (truthy_opt (google args) \<and> mtranslate env = None)"
  shows "process_lines env args src_f ref_f hyp_fs td =
           (if truthy (detok args)
            then (case moses env (detok args) of
                    NltkImportError \<Rightarrow>
                      (''Error: Install package '' @ apostrophe @ ''nltk'' @ apostrophe
                         @ '': pip install --user -U nltk'' @ nl,
                       Some (SystemExit 3))
                  | NltkLookupError \<Rightarrow>
                      (''Error: Install NLTK data package '' @ apostrophe @ ''perluniprops''
                         @ apostrophe @ '': '' @ replicate 19 CHR '' ''
                         @ ''import nltk; nltk.download('' @ apostrophe @ ''perluniprops''
                         @ apostrophe @ '')'' @ nl,
                       Some (SystemExit 4))
                  | MosesDetokenizer dt \<Rightarrow>
                      lines_loop args ''@@ '' (Some dt)
                        (if truthy_opt (google args) then mtranslate env else None)
                        td 0 src_f ref_f hyp_fs)
            else lines_loop args ''@@ '' None
                   (if truthy_opt (google args) then mtranslate env else None)
                   td 0 src_f ref_f hyp_fs)"
  by (simp only: process_lines_def Let_def assms if_False)

lemma process_lines_padded:
  "process_lines env args src_f ref_f hyp_fs td =
   process_lines env args src_f (map_option (pad_file (length src_f)) ref_f)
     (map (pad_file (length src_f)) hyp_fs) td"
proof (cases "truthy_opt (google args) \<and> mtranslate env = None")
  case True
  then show ?thesis by (simp add: process_lines_def)
next
  case no_exit: False
  show ?thesis
  proof (cases "truthy (detok args)")
    case False
    then show ?thesis
      by (simp only: process_lines_after_google [OF no_exit] lines_loop_unbound if_False)
  next
    case True
    show ?thesis
    proof (cases "moses env (detok args)")
      case NltkImportError
      with True show ?thesis
        by (simp only: process_lines_after_google [OF no_exit] if_True nltk_result.case)
    next
      case NltkLookupError
      with True show ?thesis
        by (simp only: process_lines_after_google [OF no_exit] if_True nltk_result.case)
    next
      case (MosesDetokenizer dt)
      from no_exit have ok: "truthy_opt (google args) \<longrightarrow> mtranslate env \<noteq> None" by simp
      show ?thesis
        unfolding process_lines_closed [OF True MosesDetokenizer ok]
        by (simp add: option.map_comp o_def line_at_pad_file)
    qed
  qed
qed

text \<open>
  Claim C7. A reference or hypothesis file that is exhausted before the source is read
  as a file of empty lines: \<^verbatim>\<open>process_lines\<close> prints and returns the same as with the file
  filled up to the length of the source with empty lines, so no exception and no early
  end comes from it. Once the setup has succeeded the run ends without an exception and
  prints one group for each source line up to the line limit, the line of an exhausted
  file being printed from the empty string.
\<close>

theorem exhausted_stream_reads_empty_line:
  "process_lines env args src_f ref_f hyp_fs td =
     process_lines env args src_f (map_option (pad_file (length src_f)) ref_f)
       (map (pad_file (length src_f)) hyp_fs) td \<and>
   (truthy (detok args) \<and> moses env (detok args) = MosesDetokenizer dt \<and>
    (truthy_opt (google args) \<longrightarrow> mtranslate env \<noteq> None) \<longrightarrow>
      process_lines env args src_f ref_f hyp_fs td =
        (concat (map (\<lambda>i. group_text args ''@@ '' dt
                             (if truthy_opt (google args) then mtranslate env else None) td
                             (src_f ! i)
                             (map_option (\<lambda>r. line_at r i) ref_f)
                             (map (\<lambda>h. line_at h i) hyp_fs))
                     [0..<min (length src_f) (nat (head args))]),
         None)) \<and>
   (\<forall>f i. length f \<le> i \<longrightarrow> line_at f i = [] \<and> readline (drop i f) = ([], []))"
  using process_lines_closed [of args env dt src_f ref_f hyp_fs td]
    process_lines_padded [of env args src_f ref_f hyp_fs td]
  by (simp add: line_at_def readline_def)

theorem exhausted_stream_reads_empty_line_witness:
  "truthy (detok default_args) \<and>
   moses example_env (detok default_args) = MosesDetokenizer (py_join '' '') \<and>
   \<not> truthy_opt (google default_args) \<and>
   pad_file 2 [''a'' @ nl] = [''a'' @ nl, []] \<and>
   process_lines example_env default_args [''a'' @ nl, ''b'' @ nl] (Some [''a'' @ nl]) [[''a'' @ nl]] Map.empty
     = (''Src:     a'' @ nl @ ''Ref:     a'' @ nl @ ''MT1: :-) a'' @ nl @ nl
        @ ''Src:     b'' @ nl @ ''Ref:     '' @ nl @ ''MT1: :-) '' @ nl @ nl, None)"
  using exhausted_stream_reads_empty_line [of example_env default_args "[''a'' @ nl, ''b'' @ nl]"
      "Some [''a'' @ nl]" "[[''a'' @ nl]]" Map.empty "py_join '' ''", THEN conjunct2]
  by (simp add: example_env_def default_args_def truthy_def truthy_opt_def maxsize_def
      group_text_def hyp_lines_text_def line_at_def process_line_def google_hyp_def
      print_hyp_def str_nat_1 string_eval upt_conv_Cons pad_file_def)

text \<open>
  Claim C9. Without a reference file the reference line of every group is the empty
  string: the hypotheses are compared with it, and a hypothesis whose normalised line
  is empty is printed with the marker \<^verbatim>\<open>:-)\<close>.
\<close>

theorem no_reference_empty_hypothesis_marked:
  assumes "truthy (detok args)" and "moses env (detok args) = MosesDetokenizer dt"
    and "truthy_opt (google args) \<longrightarrow> mtranslate env \<noteq> None"
  shows "process_lines env args src_f None hyp_fs td =
           (concat (map (\<lambda>i. ''Src:     '' @ process_line args (src_f ! i) ''@@ '' dt td @ nl
                              @ hyp_lines_text args ''@@ '' dt td [] 1 (map (\<lambda>h. line_at h i) hyp_fs)
                              @ fst (google_hyp args ''@@ '' dt
                                       (if truthy_opt (google args) then mtranslate env else None)
                                       (process_line args (src_f ! i) ''@@ '' dt td) []
                                       (Suc (length hyp_fs)))
                              @ nl)
                        [0..<min (length src_f) (nat (head args))]),
            None)
         \<and> fst (read_ref args ''@@ '' dt td None) = []
         \<and> (\<forall>k raw. process_line args raw ''@@ '' dt td = [] \<longrightarrow>
               print_hyp k [] (process_line args raw ''@@ '' dt td) = ''MT'' @ str_nat k @ '': :-) '' @ nl)"
  using process_lines_closed [OF assms, of src_f None hyp_fs td]
  by (simp add: group_text_def Let_def read_ref_def print_hyp_def)

theorem no_reference_empty_hypothesis_marked_witness:
  "truthy (detok default_args) \<and>
   moses example_env (detok default_args) = MosesDetokenizer (py_join '' '') \<and>
   \<not> truthy_opt (google default_args) \<and>
   process_line default_args [] ''@@ '' (py_join '' '') Map.empty = [] \<and>
   process_lines example_env default_args [''a'' @ nl, ''b'' @ nl] None [[''a'' @ nl]] Map.empty
     = (''Src:     a'' @ nl @ ''MT1:     a'' @ nl @ nl
        @ ''Src:     b'' @ nl @ ''MT1: :-) '' @ nl @ nl, None)"
  using no_reference_empty_hypothesis_marked [of default_args example_env "py_join '' ''"
      "[''a'' @ nl, ''b'' @ nl]" "[[''a'' @ nl]]" Map.empty]
  by (simp add: example_env_def default_args_def truthy_def truthy_opt_def maxsize_def
      hyp_lines_text_def line_at_def process_line_def google_hyp_def
      print_hyp_def str_nat_1 string_eval upt_conv_Cons)

section \<open>Options that are not given\<close>

lemma foldl_store_truecase:
  "truecase (foldl store_option a argv) = None \<longleftrightarrow>
     truecase a = None \<and> (\<forall>p. OptTruecase p \<notin> set argv)"
proof (induction argv arbitrary: a)
  case Nil
  then show ?case by simp
next
  case (Cons x argv)
  show ?case by (cases x) (auto simp: Cons.IH)
qed

lemma foldl_store_detok:
  "\<forall>l. OptDetok l \<notin> set argv \<Longrightarrow> detok (foldl store_option a argv) = detok a"
proof (induction argv arbitrary: a)
  case Nil
  then show ?case by simp
next
  case (Cons x argv)
  then show ?case by (cases x) auto
qed

lemma foldl_store_src:
  "(\<forall>p. OptSrc p \<notin> set argv) \<Longrightarrow> src (foldl store_option a argv) = src a"
proof (induction argv arbitrary: a)
  case Nil
  then show ?case by simp
next
  case (Cons x argv)
  then show ?case by (cases x) auto
qed

text \<open>
  Claim C1, as the code behaves. \<^verbatim>\<open>main\<close> calls \<^verbatim>\<open>parse_truecase_model\<close> whether or not
  truecasing is requested. Without the option \<^verbatim>\<open>--truecase\<close> the path is \<^verbatim>\<open>None\<close>, and the
  run of a command line with an existing source file ends with \<^verbatim>\<open>TypeError\<close> before
  anything is printed.
\<close>

theorem main_without_truecase_raises:
  assumes "\<forall>p. OptTruecase p \<notin> set argv" and "files env (src (parse_args argv)) = Some f"
  shows "main env argv = ([], Some TypeError)"
proof -
  have "truecase (parse_args argv) = None"
    using assms(1) by (simp add: parse_args_def foldl_store_truecase default_args_def)
  then show ?thesis
    using assms(2) by (simp add: main_def Let_def parse_truecase_model_def py_open_def)
qed

theorem main_without_truecase_raises_witness:
  "(\<forall>p. OptTruecase p \<notin> set [OptSrc ''s'']) \<and>
   files (example_env) (src (parse_args [OptSrc ''s''])) = Some [''a b'' @ nl] \<and>
   main (example_env) [OptSrc ''s''] = ([], Some TypeError)"
  using main_without_truecase_raises [of "[OptSrc ''s'']" "example_env"
      "[''a b'' @ nl]"]
  by (simp add: parse_args_def default_args_def example_env_def example_files_def)

text \<open>
  Claim C2 fails. On a command line without \<^verbatim>\<open>--detok\<close> the option has its default
  \<^verbatim>\<open>"en"\<close>, and the result of \<^verbatim>\<open>process_line\<close> follows the detokenizer; with the option
  set to the empty string the line is left as it is.
\<close>

theorem detok_absent_still_detokenizes:
  "detok (parse_args [OptSrc ''s'']) = ''en'' \<and>
   process_line (parse_args [OptSrc ''s'']) ''a b'' ''@@ '' concat Map.empty = ''ab'' \<and>
   process_line (parse_args [OptSrc ''s'']) ''a b'' ''@@ '' (py_join '' - '') Map.empty = ''a - b'' \<and>
   process_line (parse_args [OptSrc ''s'', OptDetok []]) ''a b'' ''@@ '' concat Map.empty = ''a b''"
  by (simp add: parse_args_def default_args_def process_line_def truthy_def truthy_opt_def
      string_eval)

text \<open>
  Claim C2, amended. On every command line without \<^verbatim>\<open>--detok\<close> the option has the
  default value \<^verbatim>\<open>"en"\<close>, which is true as a condition, so \<^verbatim>\<open>process_line\<close> performs the
  detokenization step on every line: the tokens of the line, as the earlier steps leave
  it, go through the detokenizer before the apostrophes are fixed.
\<close>

theorem detok_default_enables_step:
  assumes "\<forall>l. OptDetok l \<notin> set argv"
  shows "detok (parse_args argv) = ''en'' \<and> truthy (detok (parse_args argv)) \<and>
         process_line (parse_args argv) line re_bpe dt td =
           re_sub ''&apos;'' apostrophe
             (dt (py_split
                (let args = parse_args argv;
                     l = py_rstrip line;
                     l = (if lc args then py_lower l
                          else if truthy_opt (truecase args) then truecase_line l td
                          else l)
                 in if del_bpe args then re_sub re_bpe [] l else l)))"
proof -
  have "detok (parse_args argv) = ''en''"
    using assms by (simp add: parse_args_def foldl_store_detok default_args_def)
  then show ?thesis
    by (simp add: process_line_def Let_def truthy_def)
qed

theorem detok_default_enables_step_witness:
  "(\<forall>l. OptDetok l \<notin> set [OptSrc ''s'', OptLc]) \<and>
   detok (parse_args [OptSrc ''s'', OptLc]) = ''en'' \<and>
   process_line (parse_args [OptSrc ''s'', OptLc]) (''A  b'' @ nl) ''@@ '' (py_join '' - '') Map.empty
     = ''a - b''"
  using detok_default_enables_step [of "[OptSrc ''s'', OptLc]" "''A  b'' @ nl" "''@@ ''"
      "py_join '' - ''" Map.empty]
  by (simp add: parse_args_def default_args_def string_eval)

section \<open>The apostrophe fix and repeated normalisation\<close>

lemma re_sub_prefix_back:
  "q \<notin> set p \<Longrightarrow> prefix p (re_sub pat [q] s) \<Longrightarrow> prefix p s"
proof (induction p arbitrary: s)
  case Nil
  then show ?case by simp
next
  case (Cons a p)
  show ?case
  proof (cases s)
    case Nil
    with Cons.prems show ?thesis by simp
  next
    case (Cons c cs)
    show ?thesis
    proof (cases "pat \<noteq> [] \<and> prefix pat (c # cs)")
      case True
      with Cons.prems(2) \<open>s = c # cs\<close> have "a = q" by simp
      with Cons.prems(1) show ?thesis by simp
    next
      case False
      with Cons.prems(2) \<open>s = c # cs\<close> have "a = c" and "prefix p (re_sub pat [q] cs)"
        by auto
      moreover from Cons.prems(1) have "q \<notin> set p" by simp
      ultimately show ?thesis
        using Cons.IH [of cs] \<open>s = c # cs\<close> by simp
    qed
  qed
qed

lemma re_sub_skip:
  "\<not> (pat \<noteq> [] \<and> prefix pat (c # cs)) \<Longrightarrow> re_sub pat repl (c # cs) = c # re_sub pat repl cs"
  by auto

lemma re_sub_idem:
  assumes "q \<notin> set pat"
  shows "re_sub pat [q] (re_sub pat [q] s) = re_sub pat [q] s"
proof (induction s rule: length_induct)
  case (1 s)
  show ?case
  proof (cases s)
    case Nil
    then show ?thesis by simp
  next
    case (Cons c cs)
    show ?thesis
    proof (cases "pat \<noteq> [] \<and> prefix pat (c # cs)")
      case True
      let ?rest = "drop (length pat) (c # cs)"
      from True have "length ?rest < length s" using Cons by simp
      with 1 have IH: "re_sub pat [q] (re_sub pat [q] ?rest) = re_sub pat [q] ?rest" by blast
      have "\<not> prefix pat (q # re_sub pat [q] ?rest)"
        using True assms by (cases pat) auto
      then have "re_sub pat [q] (q # re_sub pat [q] ?rest) = q # re_sub pat [q] (re_sub pat [q] ?rest)"
        by simp
      moreover have "re_sub pat [q] s = q # re_sub pat [q] ?rest"
        using True Cons by simp
      ultimately show ?thesis by (simp only: IH)
    next
      case False
      have IH: "re_sub pat [q] (re_sub pat [q] cs) = re_sub pat [q] cs"
        using 1 Cons by simp
      have "\<not> (pat \<noteq> [] \<and> prefix pat (c # re_sub pat [q] cs))"
      proof
        assume a: "pat \<noteq> [] \<and> prefix pat (c # re_sub pat [q] cs)"
        with re_sub_skip [OF False] have "prefix pat (re_sub pat [q] (c # cs))" by simp
        with assms have "prefix pat (c # cs)" by (rule re_sub_prefix_back)
        with a False show False by simp
      qed
      then have "re_sub pat [q] (c # re_sub pat [q] cs) = c # re_sub pat [q] (re_sub pat [q] cs)"
        by (rule re_sub_skip)
      moreover have "re_sub pat [q] s = c # re_sub pat [q] cs"
        using re_sub_skip [OF False] Cons by simp
      ultimately show ?thesis by (simp only: IH)
    qed
  qed
qed

lemma re_sub_no_occurrence:
  assumes "q \<notin> set pat" and "pat \<noteq> []"
  shows "re_sub pat [q] s \<noteq> u @ pat @ v"
proof (induction s arbitrary: u rule: length_induct)
  case (1 s)
  show ?case
  proof
    assume eq: "re_sub pat [q] s = u @ pat @ v"
    show False
    proof (cases s)
      case Nil
      with eq assms(2) show False by simp
    next
      case (Cons c cs)
      show False
      proof (cases "prefix pat (c # cs)")
        case True
        let ?rest = "drop (length pat) (c # cs)"
        from True assms(2) have len: "length ?rest < length s" using Cons by simp
        from True assms(2) eq Cons have eq': "q # re_sub pat [q] ?rest = u @ pat @ v" by simp
        show False
        proof (cases u)
          case Nil
          with eq' assms show False by (cases pat) auto
        next
          case (Cons a u')
          with eq' have "re_sub pat [q] ?rest = u' @ pat @ v" by auto
          with 1 len show False by blast
        qed
      next
        case False
        with eq Cons have eq': "c # re_sub pat [q] cs = u @ pat @ v" by simp
        show False
        proof (cases u)
          case Nil
          with eq' False \<open>s = c # cs\<close> have "prefix pat (re_sub pat [q] (c # cs))" by simp
          with assms(1) have "prefix pat (c # cs)" by (rule re_sub_prefix_back)
          with False show False by simp
        next
          case (Cons a u')
          with eq' have "re_sub pat [q] cs = u' @ pat @ v" by auto
          with 1 \<open>s = c # cs\<close> show False by simp
        qed
      qed
    qed
  qed
qed

lemma set_re_sub: "set (re_sub pat repl s) \<subseteq> set s \<union> set repl"
proof (induction pat repl s rule: re_sub.induct)
  case (1 pat repl)
  then show ?case by simp
next
  case (2 pat repl c cs)
  have "set (drop (length pat) (c # cs)) \<subseteq> set (c # cs)" by (rule set_drop_subset)
  with 2 show ?case by (auto split: if_splits)
qed

lemma re_sub_Nil_iff: "re_sub pat [q] s = [] \<longleftrightarrow> s = []"
  by (cases s) auto

lemma last_re_sub:
  "s \<noteq> [] \<Longrightarrow> last (re_sub pat [q] s) = last s \<or> last (re_sub pat [q] s) = q"
proof (induction s rule: length_induct)
  case (1 s)
  from 1(2) obtain c cs where s: "s = c # cs" by (cases s) auto
  show ?case
  proof (cases "pat \<noteq> [] \<and> prefix pat (c # cs)")
    case True
    let ?rest = "drop (length pat) (c # cs)"
    show ?thesis
    proof (cases "?rest = []")
      case True
      with \<open>pat \<noteq> [] \<and> prefix pat (c # cs)\<close> s show ?thesis by simp
    next
      case False
      then have "length pat < length (c # cs)" by simp
      then have l: "last ?rest = last (c # cs)" by (rule last_drop)
      from True have "length ?rest < length s" using s by simp
      with 1(1) False have "last (re_sub pat [q] ?rest) = last ?rest \<or> last (re_sub pat [q] ?rest) = q"
        by blast
      with True False l s show ?thesis by (simp add: re_sub_Nil_iff)
    qed
  next
    case False
    show ?thesis
    proof (cases "cs = []")
      case True
      with re_sub_skip [OF False] s show ?thesis by simp
    next
      case nonempty: False
      with 1(1) s have "last (re_sub pat [q] cs) = last cs \<or> last (re_sub pat [q] cs) = q" by simp
      with re_sub_skip [OF False] nonempty s show ?thesis by (simp add: re_sub_Nil_iff)
    qed
  qed
qed

lemma py_rstrip_id: "s = [] \<or> \<not> py_isspace (last s) \<Longrightarrow> py_rstrip s = s"
  by (cases s rule: rev_cases) (auto simp: py_rstrip_def)

lemma py_rstrip_last: "py_rstrip s = [] \<or> \<not> py_isspace (last (py_rstrip s))"
proof (cases "dropWhile py_isspace (rev s)")
  case Nil
  then show ?thesis by (simp add: py_rstrip_def)
next
  case (Cons a as)
  then have "\<not> py_isspace a" using hd_dropWhile [of py_isspace "rev s"] by force
  with Cons show ?thesis by (simp add: py_rstrip_def)
qed

lemma py_lower_char_idem: "py_lower_char (py_lower_char c) = py_lower_char c"
  by (auto simp: py_lower_char_def Let_def)

lemma py_lower_char_space: "py_isspace (py_lower_char c) \<longleftrightarrow> py_isspace c"
  by (auto simp: py_lower_char_def py_isspace_def Let_def)

lemma apostrophe_facts:
  "\<not> py_isspace (CHR 0x27)" "py_lower_char (CHR 0x27) = CHR 0x27" "CHR 0x27 \<notin> set ''&apos;''"
  by (simp_all add: py_isspace_def py_lower_char_def)


lemma apos_fix_keeps_no_trailing_space:
  assumes "z = [] \<or> \<not> py_isspace (last z)"
  shows "re_sub ''&apos;'' apostrophe z = [] \<or> \<not> py_isspace (last (re_sub ''&apos;'' apostrophe z))"
proof (cases "z = []")
  case True
  then show ?thesis by simp
next
  case False
  from last_re_sub [OF False, of "''&apos;''" "CHR 0x27"] assms False
  show ?thesis by (auto simp: apostrophe_def apostrophe_facts)
qed

lemma apos_fix_idem:
  "re_sub ''&apos;'' apostrophe (re_sub ''&apos;'' apostrophe s) = re_sub ''&apos;'' apostrophe s"
  unfolding apostrophe_def by (rule re_sub_idem) simp

lemma py_lower_no_trailing_space:
  assumes "z = [] \<or> \<not> py_isspace (last z)"
  shows "py_lower z = [] \<or> \<not> py_isspace (last (py_lower z))"
  using assms by (cases "z = []") (simp_all add: py_lower_def last_map py_lower_char_space)

lemma py_lower_apos_fix_lower:
  "py_lower (re_sub ''&apos;'' apostrophe (py_lower s)) = re_sub ''&apos;'' apostrophe (py_lower s)"
proof -
  have "py_lower_char c = c" if "c \<in> set (re_sub ''&apos;'' apostrophe (py_lower s))" for c
  proof -
    from that set_re_sub [of "''&apos;''" apostrophe "py_lower s"]
    have "c \<in> set (py_lower s) \<or> c = CHR 0x27" by (auto simp: apostrophe_def)
    then show ?thesis
      by (auto simp: py_lower_def py_lower_char_idem apostrophe_facts)
  qed
  then show ?thesis unfolding py_lower_def [of "re_sub _ _ _"] by (simp add: map_idI)
qed

text \<open>
  Claim C8 fails. With detokenization off, a second normalisation changes the line when
  the BPE markers are deleted (deleting one marker can form another) and when a truecase
  model is applied (the apostrophe written by the first pass makes a token of the model).
\<close>

theorem normalize_not_idempotent:
  "process_line (parse_args [OptDetok [], OptDelBpe]) ''@@@ @ x'' ''@@ '' concat Map.empty = ''@@ x'' \<and>
   process_line (parse_args [OptDetok [], OptDelBpe]) ''@@ x'' ''@@ '' concat Map.empty = ''x'' \<and>
   process_line (parse_args [OptDetok [], OptTruecase ''m'']) ''&apos;s'' ''@@ '' concat
       [apostrophe @ ''s'' \<mapsto> apostrophe @ ''S''] = apostrophe @ ''s'' \<and>
   process_line (parse_args [OptDetok [], OptTruecase ''m'']) (apostrophe @ ''s'') ''@@ '' concat
       [apostrophe @ ''s'' \<mapsto> apostrophe @ ''S''] = apostrophe @ ''S''"
  by (simp add: parse_args_def default_args_def process_line_def truthy_def truthy_opt_def
      truecase_line_def truecase_step_def string_eval)

text \<open>
  Claim C8, amended. With detokenization off, the deletion of BPE markers off and no
  truecasing in effect (the lowercase option set, or no truecase option), normalising a
  line twice gives the same as normalising it once. In every configuration the last step
  replaces every occurrence of \<^verbatim>\<open>&apos;\<close> by an apostrophe: no occurrence is left in the
  result, and the apostrophe fix applied to the result changes nothing.
\<close>

theorem normalize_idempotent_plain:
  "(\<not> truthy (detok args) \<and> \<not> del_bpe args \<and> (lc args \<or> \<not> truthy_opt (truecase args)) \<longrightarrow>
      process_line args (process_line args line re_bpe dt td) re_bpe dt td
        = process_line args line re_bpe dt td) \<and>
   (\<forall>u v. process_line args line re_bpe dt td \<noteq> u @ ''&apos;'' @ v) \<and>
   re_sub ''&apos;'' apostrophe (process_line args line re_bpe dt td)
     = process_line args line re_bpe dt td"
proof (intro conjI impI allI)
  assume a: "\<not> truthy (detok args) \<and> \<not> del_bpe args \<and> (lc args \<or> \<not> truthy_opt (truecase args))"
  let ?A = "re_sub ''&apos;'' apostrophe"
  show "process_line args (process_line args line re_bpe dt td) re_bpe dt td
          = process_line args line re_bpe dt td"
  proof (cases "lc args")
    case True
    let ?z = "py_lower (py_rstrip line)"
    have f: "process_line args l re_bpe dt td = ?A (py_lower (py_rstrip l))" for l
      using a True by (simp add: process_line_def)
    have "?A ?z = [] \<or> \<not> py_isspace (last (?A ?z))"
      by (intro apos_fix_keeps_no_trailing_space py_lower_no_trailing_space py_rstrip_last)
    then have "py_rstrip (?A ?z) = ?A ?z" by (rule py_rstrip_id)
    then show ?thesis
      by (simp only: f py_lower_apos_fix_lower apos_fix_idem)
  next
    case False
    have f: "process_line args l re_bpe dt td = ?A (py_rstrip l)" for l
      using a False by (simp add: process_line_def)
    have "?A (py_rstrip line) = [] \<or> \<not> py_isspace (last (?A (py_rstrip line)))"
      by (intro apos_fix_keeps_no_trailing_space py_rstrip_last)
    then have "py_rstrip (?A (py_rstrip line)) = ?A (py_rstrip line)" by (rule py_rstrip_id)
    then show ?thesis
      by (simp only: f apos_fix_idem)
  qed
next
  fix u v
  show "process_line args line re_bpe dt td \<noteq> u @ ''&apos;'' @ v"
    unfolding process_line_def Let_def apostrophe_def
    by (rule re_sub_no_occurrence) simp_all
next
  show "re_sub ''&apos;'' apostrophe (process_line args line re_bpe dt td)
          = process_line args line re_bpe dt td"
    unfolding process_line_def Let_def by (rule apos_fix_idem)
qed

theorem normalize_idempotent_plain_witness:
  "\<not> truthy (detok (parse_args [OptDetok [], OptLc])) \<and>
   \<not> del_bpe (parse_args [OptDetok [], OptLc]) \<and>
   lc (parse_args [OptDetok [], OptLc]) \<and>
   process_line (parse_args [OptDetok [], OptLc]) (''It&APOS;s  '' @ nl) ''@@ '' concat Map.empty
     = ''it'' @ apostrophe @ ''s'' \<and>
   process_line (parse_args [OptDetok [], OptLc]) (''it'' @ apostrophe @ ''s'') ''@@ '' concat Map.empty
     = ''it'' @ apostrophe @ ''s''"
  using normalize_idempotent_plain [of "parse_args [OptDetok [], OptLc]" "''It&APOS;s  '' @ nl" "''@@ ''" concat Map.empty]
  by (simp add: parse_args_def default_args_def process_line_def truthy_def string_eval)

end
